theory Spec2Isabelle
  imports Main "HOL-Library.Sublist"
begin

section \<open>Data model\<close>

text \<open>
  The objects that \<^verbatim>\<open>strawberry/schema/execute_context.py\<close> handles. The query document
  (field nodes, operation nodes, resolve info) is read-only during execution and is kept
  opaque; an object type is used only through its \<^verbatim>\<open>name\<close>.
\<close>

datatype field_node = FieldNode string

datatype operation_node = OperationDefinitionNode string

datatype resolve_info = GraphQLResolveInfo string

datatype object_type = GraphQLObjectType (name: string)

datatype output_type = NamedType string | NonNullType output_type | ListType output_type

text \<open>
  \<^verbatim>\<open>graphql.pyutils.Path\<close>: an immutable chain of (previous path, key, type name). A key is
  a response name or a list index.
\<close>

datatype path_key = Key string | Index nat

datatype path = Path "path option" path_key string

text \<open>
  Modelled from the spec: \<^verbatim>\<open>Path.as_list\<close> belongs to the GraphQL library and its source is
  missing. Section 6 of the spec describes its result as the execution path rendered as an
  ordered list of key-or-index segments from the root to the failing field.
\<close>

fun as_list :: "path \<Rightarrow> path_key list" where
  "as_list (Path None k t) = [k]"
| "as_list (Path (Some p) k t) = as_list p @ [k]"

text \<open>
  Python exceptions. \<^verbatim>\<open>GraphQLError\<close> is the error record of the spec: an underlying fault,
  the field nodes that produced it and the path at the time of the failure.
\<close>

datatype exn =
    Exception string
  | TypeError
  | AttributeError
  | GraphQLError exn "field_node list" "path_key list"

text \<open>
  A deferred value is described by the tick at which it settles and by the way it
  settles. Ticks only order settlements in time; a value that is already settled when it
  is created carries tick \<open>0\<close>. Deferred values that never settle are outside the model
  (the spec knows no cancellation: a resolution runs to completion or to failure).
\<close>

datatype 'a outcome = Fulfilled 'a | Rejected exn

datatype 'a promise = Promise (settles_at: nat) (outcome: "'a outcome")

text \<open>
  Python values. A dict is an association list in insertion order; \<open>Undefined\<close> is the
  sentinel of \<^verbatim>\<open>graphql.pyutils\<close>; \<open>Coroutine\<close> stands for an awaitable of the host
  environment; \<open>ExecutionResult\<close> is the response envelope (data, errors).
\<close>

datatype val =
    VNone
  | Undefined
  | VInt int
  | VStr string
  | VList "val list"
  | VDict "(string \<times> val) list"
  | Coroutine val
  | VPromise "val promise"
  | ExecutionResult val "exn list"

text \<open>
  The execution context owns the mutable error list. The record is extensible: whatever
  else the base engine keeps in the context lives in the extension.
\<close>

record execution_context =
  errors :: "exn list"

type_synonym 'm ctx = "'m execution_context_scheme"

text \<open>
  A call of a method that may mutate the context: it returns or raises (\<open>Inl\<close>), and the
  context it leaves behind is returned in both cases.
\<close>

type_synonym ('a, 'm) action = "'m ctx \<Rightarrow> (exn + 'a) \<times> 'm ctx"

text \<open>
  What the module imports from the GraphQL library and inherits from the base
  \<^verbatim>\<open>ExecutionContext\<close>. This code belongs to another package, so every function is a
  parameter of the model: the detector \<^verbatim>\<open>graphql.pyutils.is_awaitable\<close>, the constructor
  \<^verbatim>\<open>located_error\<close>, and the methods that the class reaches through \<^verbatim>\<open>self\<close> or
  \<^verbatim>\<open>super()\<close>. A method may raise, and may change the context before it does.
\<close>

record 'm external =
  default_is_awaitable :: "val \<Rightarrow> bool"
  located_error :: "exn \<Rightarrow> field_node list \<Rightarrow> path_key list \<Rightarrow> exn"
  resolve_field :: "object_type \<Rightarrow> val \<Rightarrow> field_node list \<Rightarrow> path \<Rightarrow> (val, 'm) action"
  handle_field_error :: "exn \<Rightarrow> output_type \<Rightarrow> (val, 'm) action"
  super_complete_value ::
    "output_type \<Rightarrow> field_node list \<Rightarrow> resolve_info \<Rightarrow> path \<Rightarrow> val \<Rightarrow> (val, 'm) action"
  super_build_response :: "val \<Rightarrow> (val, 'm) action"
  super_execute_operation :: "operation_node \<Rightarrow> val \<Rightarrow> (val, 'm) action"

section \<open>Deferred values\<close>

text \<open>
  Modelled from the spec: the source of the module \<^verbatim>\<open>strawberry.promise\<close> (\<^verbatim>\<open>Promise\<close>,
  \<^verbatim>\<open>is_thenable\<close>) is missing. The definitions of this section follow section 4.1 of the
  spec.

  The predicate tells whether an object is one of the engine's own deferred values.
\<close>

fun is_thenable :: "val \<Rightarrow> bool" where
  "is_thenable (VPromise p) = True"
| "is_thenable v = False"

text \<open>
  Modelled from the spec: \<^verbatim>\<open>Promise.resolve\<close> wraps a value, already deferred or not, into
  a deferred value in the fulfilled state without double-wrapping.
\<close>

fun promise_resolve :: "val \<Rightarrow> val promise" where
  "promise_resolve (VPromise p) = p"
| "promise_resolve v = Promise 0 (Fulfilled v)"

text \<open>
  The deferred value that represents the outcome of a continuation which ran when its
  parent settled at tick \<open>t\<close>: a raised exception rejects it, a plain return value fulfils
  it, and a returned deferred value is adopted (flattening, not nesting).
\<close>

fun continuation_outcome :: "nat \<Rightarrow> exn + val \<Rightarrow> val promise" where
  "continuation_outcome t (Inl e) = Promise t (Rejected e)"
| "continuation_outcome t (Inr (VPromise q)) = Promise (max t (settles_at q)) (outcome q)"
| "continuation_outcome t (Inr v) = Promise t (Fulfilled v)"

text \<open>
  Modelled from the spec: \<^verbatim>\<open>then(onFulfilled, onRejected)\<close> runs the continuation that
  matches the settlement and returns a new deferred value representing the continuation's
  outcome. A continuation is a method call on some state \<open>'s\<close>; the state handed to
  \<open>then\<close> is the one in which the continuation runs, so continuations take effect in the
  order of their registration. A missing continuation (\<open>None\<close>) lets the settlement
  through unchanged.
\<close>

definition promise_then_opt ::
  "val promise \<Rightarrow> (val \<Rightarrow> 's \<Rightarrow> (exn + val) \<times> 's) option
     \<Rightarrow> (exn \<Rightarrow> 's \<Rightarrow> (exn + val) \<times> 's) option \<Rightarrow> 's \<Rightarrow> val promise \<times> 's" where
  "promise_then_opt p on_fulfilled on_rejected s =
     (case outcome p of
        Fulfilled v \<Rightarrow>
          (case on_fulfilled of
             None \<Rightarrow> (p, s)
           | Some f \<Rightarrow> (case f v s of (r, s') \<Rightarrow> (continuation_outcome (settles_at p) r, s')))
      | Rejected e \<Rightarrow>
          (case on_rejected of
             None \<Rightarrow> (p, s)
           | Some g \<Rightarrow> (case g e s of (r, s') \<Rightarrow> (continuation_outcome (settles_at p) r, s'))))"

text \<open>\<^verbatim>\<open>p.then(f, g)\<close>, \<^verbatim>\<open>p.then(f)\<close> and \<^verbatim>\<open>p.catch(g)\<close>, the last being \<^verbatim>\<open>then(None, g)\<close>.\<close>

definition promise_then ::
  "val promise \<Rightarrow> (val \<Rightarrow> 's \<Rightarrow> (exn + val) \<times> 's) \<Rightarrow> (exn \<Rightarrow> 's \<Rightarrow> (exn + val) \<times> 's)
     \<Rightarrow> 's \<Rightarrow> val promise \<times> 's" where
  "promise_then p f g = promise_then_opt p (Some f) (Some g)"

definition promise_then1 ::
  "val promise \<Rightarrow> (val \<Rightarrow> 's \<Rightarrow> (exn + val) \<times> 's) \<Rightarrow> 's \<Rightarrow> val promise \<times> 's" where
  "promise_then1 p f = promise_then_opt p (Some f) None"

definition promise_catch ::
  "val promise \<Rightarrow> (exn \<Rightarrow> 's \<Rightarrow> (exn + val) \<times> 's) \<Rightarrow> 's \<Rightarrow> val promise \<times> 's" where
  "promise_catch p g = promise_then_opt p None (Some g)"

text \<open>
  Modelled from the spec: \<^verbatim>\<open>Promise.all\<close> fulfils with the ordered list of settled
  results once every input has settled, or rejects with the first rejection encountered,
  that is the one with the earliest tick (the leftmost of those when ticks are equal).
  Inputs that are not deferred count as already settled.
\<close>

fun rejections :: "val promise list \<Rightarrow> (nat \<times> exn) list" where
  "rejections [] = []"
| "rejections (Promise t (Rejected e) # ps) = (t, e) # rejections ps"
| "rejections (Promise t (Fulfilled v) # ps) = rejections ps"

fun fulfilled_values :: "val promise list \<Rightarrow> val list" where
  "fulfilled_values [] = []"
| "fulfilled_values (Promise t (Fulfilled v) # ps) = v # fulfilled_values ps"
| "fulfilled_values (Promise t (Rejected e) # ps) = fulfilled_values ps"

fun first_rejection :: "(nat \<times> exn) list \<Rightarrow> (nat \<times> exn) option" where
  "first_rejection [] = None"
| "first_rejection (r # rs) =
     (case first_rejection rs of
        None \<Rightarrow> Some r
      | Some r' \<Rightarrow> if fst r \<le> fst r' then Some r else Some r')"

fun last_tick :: "val promise list \<Rightarrow> nat" where
  "last_tick [] = 0"
| "last_tick (p # ps) = max (settles_at p) (last_tick ps)"

definition promise_all :: "val list \<Rightarrow> val promise" where
  "promise_all vs =
     (let ps = map promise_resolve vs in
      case first_rejection (rejections ps) of
        Some (t, e) \<Rightarrow> Promise t (Rejected e)
      | None \<Rightarrow> Promise (last_tick ps) (Fulfilled (VList (fulfilled_values ps))))"

text \<open>
  \<^verbatim>\<open>p.get()\<close> hands out the settled value of a deferred value. The spec does not describe
  it; the model takes the conventional reading, in which a rejection is raised again.
\<close>

fun promise_get :: "val promise \<Rightarrow> exn + val" where
  "promise_get (Promise t (Fulfilled v)) = Inr v"
| "promise_get (Promise t (Rejected e)) = Inl e"

section \<open>Python dicts\<close>

text \<open>\<^verbatim>\<open>d[k] = v\<close>: an existing key keeps its position, a new key goes to the end.\<close>

fun dict_setitem :: "('k \<times> 'v) list \<Rightarrow> 'k \<Rightarrow> 'v \<Rightarrow> ('k \<times> 'v) list" where
  "dict_setitem [] k v = [(k, v)]"
| "dict_setitem ((k', v') # d) k v =
     (if k' = k then (k', v) # d else (k', v') # dict_setitem d k v)"

text \<open>\<^verbatim>\<open>dict(pairs)\<close>: the pairs are stored one after the other.\<close>

definition dict_of_pairs :: "('k \<times> 'v) list \<Rightarrow> ('k \<times> 'v) list" where
  "dict_of_pairs kvs = foldl (\<lambda>d (k, v). dict_setitem d k v) [] kvs"

definition dict_keys :: "('k \<times> 'v) list \<Rightarrow> 'k list" where
  "dict_keys d = map fst d"

definition dict_values :: "('k \<times> 'v) list \<Rightarrow> 'v list" where
  "dict_values d = map snd d"

section \<open>The module\<close>

subsection \<open>\<^verbatim>\<open>is_awaitable\<close>\<close>

definition is_awaitable :: "'m external \<Rightarrow> val \<Rightarrow> bool" where
  "is_awaitable ext v = (if is_thenable v then False else default_is_awaitable ext v)"

subsection \<open>\<^verbatim>\<open>promise_for_dict\<close>\<close>

text \<open>
  The inner function \<^verbatim>\<open>handle_success\<close>, with the dict \<^verbatim>\<open>value\<close> of the enclosing call;
  \<^verbatim>\<open>zip\<close> raises a \<^verbatim>\<open>TypeError\<close> on an argument that is not iterable. The continuation
  touches no context, so it runs on the trivial state.
\<close>

definition handle_success :: "(string \<times> val) list \<Rightarrow> val \<Rightarrow> exn + val" where
  "handle_success value resolved_values =
     (case resolved_values of
        VList rs \<Rightarrow> (let return_value = zip (dict_keys value) rs in
                     Inr (VDict (dict_of_pairs return_value)))
      | _ \<Rightarrow> Inl TypeError)"

definition promise_for_dict :: "(string \<times> val) list \<Rightarrow> val promise" where
  "promise_for_dict value =
     fst (promise_then1 (promise_all (dict_values value))
            (\<lambda>resolved_values u. (handle_success value resolved_values, u)) ())"

subsection \<open>\<^verbatim>\<open>ExecutionContextWithPromise\<close>\<close>

text \<open>
  The methods of the class take the context \<^verbatim>\<open>self\<close> as their last argument and return it
  with their result. \<^verbatim>\<open>execute_operation\<close> runs the inherited method as the continuation
  of \<^verbatim>\<open>Promise.resolve(None)\<close> and returns the deferred value of that continuation.
\<close>

definition execute_operation ::
  "'m external \<Rightarrow> operation_node \<Rightarrow> val \<Rightarrow> (val, 'm) action" where
  "execute_operation ext operation root_value c =
     (let promise_executor = (\<lambda>v. super_execute_operation ext operation root_value) in
      case promise_then1 (promise_resolve VNone) promise_executor c of
        (promise, c') \<Rightarrow> (Inr (VPromise promise), c'))"

text \<open>
  \<^verbatim>\<open>build_response\<close> and its inner function \<^verbatim>\<open>on_rejected\<close>, which appends the rejection to
  \<^verbatim>\<open>self.errors\<close> and returns \<^verbatim>\<open>None\<close>; the inner \<^verbatim>\<open>on_resolve\<close> is the inherited builder.
  The cast of \<^verbatim>\<open>data\<close> to a \<^verbatim>\<open>Promise\<close> does nothing at run time: on an object without a
  \<^verbatim>\<open>catch\<close> method the call would raise an \<^verbatim>\<open>AttributeError\<close>.
\<close>

definition on_rejected :: "exn \<Rightarrow> (val, 'm) action" where
  "on_rejected error c = (Inr VNone, c\<lparr>errors := errors c @ [error]\<rparr>)"

definition build_response :: "'m external \<Rightarrow> val \<Rightarrow> (val, 'm) action" where
  "build_response ext data c =
     (if is_thenable data then
        (case data of
           VPromise p \<Rightarrow>
             (let on_resolve = (\<lambda>data. super_build_response ext data) in
              case promise_catch p on_rejected c of
                (caught, c1) \<Rightarrow>
                  (case promise_then1 caught on_resolve c1 of
                     (promise, c2) \<Rightarrow> (promise_get promise, c2)))
         | _ \<Rightarrow> (Inl AttributeError, c))
      else super_build_response ext data c)"

text \<open>
  \<^verbatim>\<open>complete_value\<close> and its inner function \<^verbatim>\<open>handle_error\<close>, which returns \<^verbatim>\<open>None\<close> once
  \<^verbatim>\<open>handle_field_error\<close> has returned and passes on what that method raises. The inner
  \<^verbatim>\<open>handle_resolve\<close> is the recursive call; it runs on the value with which the deferred
  result fulfils, which is what the termination proof uses.
\<close>

definition handle_error ::
  "'m external \<Rightarrow> output_type \<Rightarrow> field_node list \<Rightarrow> path \<Rightarrow> exn \<Rightarrow> (val, 'm) action" where
  "handle_error ext return_type field_nodes path raw_error c =
     (let error = located_error ext raw_error field_nodes (as_list path) in
      case handle_field_error ext error return_type c of
        (Inl raised, c') \<Rightarrow> (Inl raised, c')
      | (Inr _, c') \<Rightarrow> (Inr VNone, c'))"

lemma promise_then_cong [fundef_cong]:
  assumes "p = p'" and "s = s'"
    and "\<And>v. outcome p' = Fulfilled v \<Longrightarrow> f v s' = f' v s'"
    and "\<And>e. outcome p' = Rejected e \<Longrightarrow> g e s' = g' e s'"
  shows "promise_then p f g s = promise_then p' f' g' s'"
  using assms by (simp add: promise_then_def promise_then_opt_def split: outcome.splits)

function complete_value ::
  "'m external \<Rightarrow> output_type \<Rightarrow> field_node list \<Rightarrow> resolve_info \<Rightarrow> path \<Rightarrow> val
     \<Rightarrow> (val, 'm) action" where
  "complete_value ext return_type field_nodes info path result c =
     (if is_thenable result then
        (case promise_then (promise_resolve result)
                (\<lambda>resolved. complete_value ext return_type field_nodes info path resolved)
                (handle_error ext return_type field_nodes path) c of
           (completed, c') \<Rightarrow> (Inr (VPromise completed), c'))
      else super_complete_value ext return_type field_nodes info path result c)"
  by pat_completeness auto

lemma size_fulfilled_value:
  "is_thenable result \<Longrightarrow> outcome (promise_resolve result) = Fulfilled v \<Longrightarrow> size v < size result"
  by (cases result; cases "promise_resolve result") auto

termination complete_value
  by (relation "measure (\<lambda>(ext, return_type, field_nodes, info, path, result, c). size result)")
    (auto simp: size_fulfilled_value)

declare complete_value.simps [simp del]

text \<open>
  The loop of \<^verbatim>\<open>execute_fields\<close> over \<^verbatim>\<open>fields.items()\<close>, with the loop variables
  \<^verbatim>\<open>contains_promise\<close> and \<^verbatim>\<open>results\<close>. The dict \<^verbatim>\<open>fields\<close> is called \<open>field_items\<close> here
  (\<open>fields\<close> is a constant of the record package). There is no exception handler in the
  method: an exception raised by \<^verbatim>\<open>resolve_field\<close> leaves the loop and the method.
\<close>

fun execute_fields_loop ::
  "'m external \<Rightarrow> object_type \<Rightarrow> val \<Rightarrow> path option \<Rightarrow> (string \<times> field_node list) list
     \<Rightarrow> bool \<Rightarrow> (string \<times> val) list \<Rightarrow> 'm ctx
     \<Rightarrow> (exn + bool \<times> (string \<times> val) list) \<times> 'm ctx" where
  "execute_fields_loop ext parent_type source_value path [] contains_promise results c =
     (Inr (contains_promise, results), c)"
| "execute_fields_loop ext parent_type source_value path ((response_name, field_nodes) # field_items)
     contains_promise results c =
     (let field_path = Path path (Key response_name) (name parent_type) in
      case resolve_field ext parent_type source_value field_nodes field_path c of
        (Inl raised, c') \<Rightarrow> (Inl raised, c')
      | (Inr result, c') \<Rightarrow>
          if result \<noteq> Undefined then
            execute_fields_loop ext parent_type source_value path field_items
              (if is_thenable result then True else contains_promise)
              (dict_setitem results response_name result) c'
          else
            execute_fields_loop ext parent_type source_value path field_items
              contains_promise results c')"

definition execute_fields ::
  "'m external \<Rightarrow> object_type \<Rightarrow> val \<Rightarrow> path option \<Rightarrow> (string \<times> field_node list) list
     \<Rightarrow> (val, 'm) action" where
  "execute_fields ext parent_type source_value path field_items c =
     (case execute_fields_loop ext parent_type source_value path field_items False [] c of
        (Inl raised, c') \<Rightarrow> (Inl raised, c')
      | (Inr (contains_promise, results), c') \<Rightarrow>
          if contains_promise then (Inr (VPromise (promise_for_dict results)), c')
          else (Inr (VDict results), c'))"

section \<open>Vocabulary of the statements\<close>

text \<open>
  The settled results of a list of possibly deferred values, in the order of the list;
  \<open>None\<close> when one of them rejects.
\<close>

fun settled_values :: "val list \<Rightarrow> val list option" where
  "settled_values [] = Some []"
| "settled_values (v # vs) =
     (case outcome (promise_resolve v) of
        Rejected e \<Rightarrow> None
      | Fulfilled w \<Rightarrow> (case settled_values vs of None \<Rightarrow> None | Some ws \<Rightarrow> Some (w # ws)))"

text \<open>
  Calling a method once for each argument of a list, in the order of the list, every call
  starting in the state the previous one left; the first call that raises ends the run.
\<close>

fun invoke_in_order ::
  "('a \<Rightarrow> 's \<Rightarrow> (exn + 'b) \<times> 's) \<Rightarrow> 'a list \<Rightarrow> 's \<Rightarrow> (exn + 'b list) \<times> 's" where
  "invoke_in_order f [] s = (Inr [], s)"
| "invoke_in_order f (x # xs) s =
     (case f x s of
        (Inl raised, s') \<Rightarrow> (Inl raised, s')
      | (Inr y, s') \<Rightarrow>
          (case invoke_in_order f xs s' of
             (Inl raised, s'') \<Rightarrow> (Inl raised, s'')
           | (Inr ys, s'') \<Rightarrow> (Inr (y # ys), s'')))"

text \<open>
  The resolver calls that the spec asks of the selection-set executor: one for each
  response key, in the declared order, each with the field nodes of the key and a fresh
  path segment made of the parent path, the response key and the name of the parent type.
\<close>

definition field_calls ::
  "object_type \<Rightarrow> path option \<Rightarrow> (string \<times> field_node list) list
     \<Rightarrow> (field_node list \<times> path) list" where
  "field_calls parent_type path field_items =
     map (\<lambda>(response_name, field_nodes).
            (field_nodes, Path path (Key response_name) (name parent_type))) field_items"

text \<open>
  The response mapping that the spec asks for: the response keys paired with their
  resolution results, without the keys whose result is the absent sentinel.
\<close>

definition collected :: "string list \<Rightarrow> val list \<Rightarrow> (string \<times> val) list" where
  "collected keys rs = filter (\<lambda>(k, r). r \<noteq> Undefined) (zip keys rs)"

text \<open>A method only appends to the error list: the list it finds is a prefix of the one it leaves.\<close>

definition appends_only :: "('m ctx \<Rightarrow> 'a \<times> 'm ctx) \<Rightarrow> bool" where
  "appends_only f \<longleftrightarrow> (\<forall>c. prefix (errors c) (errors (snd (f c))))"

text \<open>
  What \<^verbatim>\<open>build_response\<close> hands to the inherited envelope builder: the data and the
  context. A deferred value that rejects is replaced by \<^verbatim>\<open>None\<close> and its rejection is
  appended to the error list; one that fulfils is replaced by its settled value; other data
  goes as it is.
\<close>

fun builder_input :: "val \<Rightarrow> 'm ctx \<Rightarrow> val \<times> 'm ctx" where
  "builder_input (VPromise (Promise t (Rejected e))) c = (VNone, c\<lparr>errors := errors c @ [e]\<rparr>)"
| "builder_input (VPromise (Promise t (Fulfilled v))) c = (v, c)"
| "builder_input data c = (data, c)"

text \<open>
  What \<^verbatim>\<open>get()\<close> hands out for the result of the last continuation: a returned deferred
  value is adopted and read, anything else (a plain value, an exception) is passed on.
\<close>

fun handed_out :: "exn + val \<Rightarrow> exn + val" where
  "handed_out (Inr (VPromise q)) = promise_get q"
| "handed_out r = r"

section \<open>A base engine for concrete runs\<close>

text \<open>
  A small stand-in for the base engine, used where a statement is evaluated on concrete
  inputs. Its awaitable detector accepts coroutines and every object with an await
  protocol, deferred values included; its resolver looks the response name up in the
  source object and answers \<open>Undefined\<close> for a field that does not exist; its field-error
  handler follows the null-propagation rule of the spec (a nullable field records the error,
  a non-null field raises it again); its envelope builder pairs the data with the errors
  of the context.
\<close>

fun demo_is_awaitable :: "val \<Rightarrow> bool" where
  "demo_is_awaitable (Coroutine v) = True"
| "demo_is_awaitable (VPromise p) = True"
| "demo_is_awaitable v = False"

fun demo_resolve_field ::
  "object_type \<Rightarrow> val \<Rightarrow> field_node list \<Rightarrow> path \<Rightarrow> (val, unit) action" where
  "demo_resolve_field parent_type (VDict d) field_nodes (Path prev (Key k) t) c =
     (case map_of d k of None \<Rightarrow> (Inr Undefined, c) | Some v \<Rightarrow> (Inr v, c))"
| "demo_resolve_field parent_type source_value field_nodes field_path c =
     (Inl (Exception ''no such object''), c)"

fun demo_handle_field_error :: "exn \<Rightarrow> output_type \<Rightarrow> (val, unit) action" where
  "demo_handle_field_error error (NonNullType t) c = (Inl error, c)"
| "demo_handle_field_error error return_type c = (Inr VNone, c\<lparr>errors := errors c @ [error]\<rparr>)"

definition demo_engine :: "unit external" where
  "demo_engine =
     \<lparr> default_is_awaitable = demo_is_awaitable,
       located_error = GraphQLError,
       resolve_field = demo_resolve_field,
       handle_field_error = demo_handle_field_error,
       super_complete_value = (\<lambda>return_type field_nodes info path result c. (Inr result, c)),
       super_build_response = (\<lambda>data c. (Inr (ExecutionResult data (errors c)), c)),
       super_execute_operation = (\<lambda>operation root_value c. (Inr root_value, c)) \<rparr>"

text \<open>A source object with a deferred field, and a selection of some of its fields.\<close>

definition demo_source :: val where
  "demo_source =
     VDict [(''a'', VInt 1), (''b'', VPromise (Promise 4 (Fulfilled (VInt 2)))), (''c'', VInt 3)]"

definition demo_fields :: "string list \<Rightarrow> (string \<times> field_node list) list" where
  "demo_fields keys = map (\<lambda>k. (k, [FieldNode k])) keys"

text \<open>
  A stand-in for the envelope builder of the GraphQL library. That builder sorts the
  recorded errors in place (by locations, path and message) before it builds the envelope,
  and so reads the attributes of a located error from every entry: an entry that is not a
  located error makes it raise an \<^verbatim>\<open>AttributeError\<close>. The stand-in sorts by the length of
  the path.
\<close>

fun is_located :: "exn \<Rightarrow> bool" where
  "is_located (GraphQLError original nodes p) = True"
| "is_located e = False"

fun path_length :: "exn \<Rightarrow> nat" where
  "path_length (GraphQLError original nodes p) = length p"
| "path_length e = 0"

definition sorting_build_response :: "val \<Rightarrow> (val, 'm) action" where
  "sorting_build_response data c =
     (if errors c = [] then (Inr (ExecutionResult data []), c)
      else if list_all is_located (errors c) then
        (let sorted = sort_key path_length (errors c) in
         (Inr (ExecutionResult data sorted), c\<lparr>errors := sorted\<rparr>))
      else (Inl AttributeError, c))"

definition library_engine :: "unit external" where
  "library_engine = demo_engine\<lparr>super_build_response := sorting_build_response\<rparr>"

text \<open>
  A resolver that records the response key of every call in the extension of the context,
  raises at the key \<open>x\<close> and otherwise looks the key up in the source object.
\<close>

fun recording_resolve_field ::
  "object_type \<Rightarrow> val \<Rightarrow> field_node list \<Rightarrow> path \<Rightarrow> (val, string list) action" where
  "recording_resolve_field parent_type (VDict d) field_nodes (Path prev (Key k) t) c =
     (let c' = \<lparr>errors = errors c, \<dots> = execution_context.more c @ [k]\<rparr> in
      if k = ''x'' then (Inl (Exception ''X''), c')
      else case map_of d k of None \<Rightarrow> (Inr Undefined, c') | Some v \<Rightarrow> (Inr v, c'))"
| "recording_resolve_field parent_type source_value field_nodes field_path c =
     (Inl (Exception ''no such object''), c)"

definition recording_engine :: "string list external" where
  "recording_engine =
     \<lparr> default_is_awaitable = demo_is_awaitable,
       located_error = GraphQLError,
       resolve_field = recording_resolve_field,
       handle_field_error = (\<lambda>error return_type c. (Inl error, c)),
       super_complete_value = (\<lambda>return_type field_nodes info path result c. (Inr result, c)),
       super_build_response = (\<lambda>data c. (Inr (ExecutionResult data (errors c)), c)),
       super_execute_operation = (\<lambda>operation root_value c. (Inr root_value, c)) \<rparr>"

lemma demo_engine_fields [simp]:
  "default_is_awaitable demo_engine = demo_is_awaitable"
  "located_error demo_engine = GraphQLError"
  "resolve_field demo_engine = demo_resolve_field"
  "handle_field_error demo_engine = demo_handle_field_error"
  "super_complete_value demo_engine = (\<lambda>return_type field_nodes info path result c. (Inr result, c))"
  "super_build_response demo_engine = (\<lambda>data c. (Inr (ExecutionResult data (errors c)), c))"
  "super_execute_operation demo_engine = (\<lambda>operation root_value c. (Inr root_value, c))"
  by (simp_all add: demo_engine_def)

lemma library_engine_fields [simp]:
  "super_build_response library_engine = sorting_build_response"
  by (simp add: library_engine_def)

lemma recording_engine_fields [simp]:
  "resolve_field recording_engine = recording_resolve_field"
  by (simp add: recording_engine_def)

lemma demo_resolve_field_state: "snd (demo_resolve_field pt s n p c) = c"
  by (induction pt s n p c rule: demo_resolve_field.induct) (simp_all split: option.splits)

lemma demo_handle_field_error_appends:
  "prefix (errors c) (errors (snd (demo_handle_field_error e rt c)))"
  by (induction e rt c rule: demo_handle_field_error.induct) simp_all

section \<open>Properties\<close>

subsection \<open>Continuations on settled values\<close>

lemma promise_then_fulfilled:
  "promise_then (Promise t (Fulfilled v)) f g s =
     (case f v s of (r, s') \<Rightarrow> (continuation_outcome t r, s'))"
  by (simp add: promise_then_def promise_then_opt_def)

lemma promise_then_rejected:
  "promise_then (Promise t (Rejected e)) f g s =
     (case g e s of (r, s') \<Rightarrow> (continuation_outcome t r, s'))"
  by (simp add: promise_then_def promise_then_opt_def)

lemma promise_then1_fulfilled:
  "promise_then1 (Promise t (Fulfilled v)) f s =
     (case f v s of (r, s') \<Rightarrow> (continuation_outcome t r, s'))"
  by (simp add: promise_then1_def promise_then_opt_def)

lemma promise_then1_rejected:
  "promise_then1 (Promise t (Rejected e)) f s = (Promise t (Rejected e), s)"
  by (simp add: promise_then1_def promise_then_opt_def)

lemma promise_catch_fulfilled:
  "promise_catch (Promise t (Fulfilled v)) g s = (Promise t (Fulfilled v), s)"
  by (simp add: promise_catch_def promise_then_opt_def)

lemma promise_catch_rejected:
  "promise_catch (Promise t (Rejected e)) g s =
     (case g e s of (r, s') \<Rightarrow> (continuation_outcome t r, s'))"
  by (simp add: promise_catch_def promise_then_opt_def)

lemma is_thenable_iff: "is_thenable v \<longleftrightarrow> (\<exists>p. v = VPromise p)"
  by (cases v) simp_all

subsection \<open>\<^verbatim>\<open>is_awaitable\<close>\<close>

text \<open>
  C7. A value that is one of the engine's own deferred values is never classified as
  awaitable by \<^verbatim>\<open>is_awaitable\<close>, whatever the default detector of the host environment
  says about it.
\<close>

theorem is_awaitable_not_thenable:
  "is_thenable v \<Longrightarrow> \<not> is_awaitable ext v"
  by (simp add: is_awaitable_def)

theorem is_awaitable_not_thenable_witness:
  "is_thenable (VPromise (Promise 0 (Fulfilled (VInt 1))))
   \<and> default_is_awaitable demo_engine (VPromise (Promise 0 (Fulfilled (VInt 1))))
   \<and> \<not> is_awaitable demo_engine (VPromise (Promise 0 (Fulfilled (VInt 1))))"
proof -
  have thenable: "is_thenable (VPromise (Promise 0 (Fulfilled (VInt 1))))"
    by simp
  from is_awaitable_not_thenable [OF thenable, of demo_engine] thenable
  show ?thesis by simp
qed

text \<open>
  C10. On a value that is not one of the engine's deferred values, \<^verbatim>\<open>is_awaitable\<close> agrees
  with the default detector; equivalently, \<^verbatim>\<open>is_awaitable\<close> holds exactly when the value
  is not thenable and the default detector holds.
\<close>

theorem is_awaitable_agrees_with_default:
  "(\<not> is_thenable v \<longrightarrow> is_awaitable ext v = default_is_awaitable ext v)
   \<and> (is_awaitable ext v \<longleftrightarrow> \<not> is_thenable v \<and> default_is_awaitable ext v)"
  by (simp add: is_awaitable_def)

theorem is_awaitable_agrees_with_default_witness:
  "\<not> is_thenable (Coroutine VNone)
   \<and> is_awaitable demo_engine (Coroutine VNone)
   \<and> default_is_awaitable demo_engine (Coroutine VNone)
   \<and> \<not> is_thenable (VInt 3)
   \<and> \<not> is_awaitable demo_engine (VInt 3)
   \<and> \<not> default_is_awaitable demo_engine (VInt 3)"
  using is_awaitable_agrees_with_default [of "Coroutine VNone" demo_engine]
    is_awaitable_agrees_with_default [of "VInt 3" demo_engine]
  by simp

subsection \<open>\<^verbatim>\<open>execute_operation\<close>\<close>

text \<open>
  C6. \<^verbatim>\<open>execute_operation\<close> always returns a deferred value, never a plain one and never
  an exception: it chains the base execution of the operation onto the already resolved
  deferred value \<^verbatim>\<open>Promise.resolve(None)\<close>, so the returned value is the outcome of that
  continuation, also when the base execution is synchronous.
\<close>

theorem execute_operation_returns_deferred:
  "(\<exists>p c'. execute_operation ext operation root_value c = (Inr (VPromise p), c'))
   \<and> is_thenable (projr (fst (execute_operation ext operation root_value c)))
   \<and> execute_operation ext operation root_value c =
       (case promise_then1 (promise_resolve VNone)
               (\<lambda>v. super_execute_operation ext operation root_value) c of
          (p, c') \<Rightarrow> (Inr (VPromise p), c'))
   \<and> execute_operation ext operation root_value c =
       (case super_execute_operation ext operation root_value c of
          (r, c') \<Rightarrow> (Inr (VPromise (continuation_outcome 0 r)), c'))"
  by (simp add: execute_operation_def promise_then1_fulfilled split: prod.splits)

theorem execute_operation_returns_deferred_witness:
  "execute_operation demo_engine (OperationDefinitionNode ''q'') (VInt 7) \<lparr>errors = []\<rparr> =
     (Inr (VPromise (Promise 0 (Fulfilled (VInt 7)))), \<lparr>errors = []\<rparr>)"
proof -
  have "execute_operation demo_engine (OperationDefinitionNode ''q'') (VInt 7) \<lparr>errors = []\<rparr> =
      (case super_execute_operation demo_engine (OperationDefinitionNode ''q'') (VInt 7)
              \<lparr>errors = []\<rparr> of
         (r, c') \<Rightarrow> (Inr (VPromise (continuation_outcome 0 r)), c'))"
    using execute_operation_returns_deferred
            [of demo_engine "OperationDefinitionNode ''q''" "VInt 7" "\<lparr>errors = []\<rparr>"]
    by blast
  then show ?thesis by simp
qed

subsection \<open>\<^verbatim>\<open>build_response\<close>\<close>

lemma promise_get_handed_out: "promise_get (continuation_outcome t r) = handed_out r"
proof (cases r)
  case (Inl e)
  then show ?thesis by simp
next
  case (Inr w)
  then show ?thesis
  proof (cases w)
    case (VPromise q)
    with Inr show ?thesis by (cases q; cases "outcome q") auto
  qed simp_all
qed

lemma build_response_rejected_eq:
  "build_response ext (VPromise (Promise t (Rejected e))) c =
     (case super_build_response ext VNone (c\<lparr>errors := errors c @ [e]\<rparr>) of
        (r, c') \<Rightarrow> (handed_out r, c'))"
  by (simp add: build_response_def promise_catch_rejected on_rejected_def promise_then1_fulfilled
      promise_get_handed_out split: prod.splits)

lemma build_response_fulfilled_eq:
  "build_response ext (VPromise (Promise t (Fulfilled v))) c =
     (case super_build_response ext v c of (r, c') \<Rightarrow> (handed_out r, c'))"
  by (simp add: build_response_def promise_catch_fulfilled promise_then1_fulfilled
      promise_get_handed_out split: prod.splits)

lemma build_response_eq:
  "build_response ext data c =
     (case builder_input data c of
        (forwarded, c1) \<Rightarrow>
          (case super_build_response ext forwarded c1 of
             (r, c') \<Rightarrow> (if is_thenable data then handed_out r else r, c')))"
proof (cases "is_thenable data")
  case True
  then obtain t o' where data: "data = VPromise (Promise t o')"
    by (metis is_thenable_iff promise.exhaust)
  show ?thesis
    by (cases o') (simp_all add: data build_response_rejected_eq build_response_fulfilled_eq)
next
  case False
  then have "builder_input data c = (data, c)" by (cases data) simp_all
  with False show ?thesis by (simp add: build_response_def split: prod.splits)
qed




subsection \<open>\<^verbatim>\<open>complete_value\<close>\<close>

lemma complete_value_thenable:
  "complete_value ext return_type field_nodes info path (VPromise p) c =
     (case promise_then p (complete_value ext return_type field_nodes info path)
             (handle_error ext return_type field_nodes path) c of
        (completed, c') \<Rightarrow> (Inr (VPromise completed), c'))"
  by (subst complete_value.simps) simp

lemma complete_value_plain:
  "\<not> is_thenable result \<Longrightarrow>
   complete_value ext return_type field_nodes info path result c =
     super_complete_value ext return_type field_nodes info path result c"
  by (subst complete_value.simps) simp

text \<open>
  C5. On a deferred value that fulfils, \<^verbatim>\<open>complete_value\<close> calls itself on the settled
  value with the same return type, field nodes, resolve info and path, and returns the
  deferred value that stands for the outcome of that call. On a result that is not a
  deferred value it is the completion of the base engine, unchanged.
\<close>

theorem complete_value_reenters:
  "complete_value ext return_type field_nodes info path (VPromise (Promise t (Fulfilled v))) c =
     (case complete_value ext return_type field_nodes info path v c of
        (r, c') \<Rightarrow> (Inr (VPromise (continuation_outcome t r)), c'))
   \<and> (\<not> is_thenable result \<longrightarrow>
        complete_value ext return_type field_nodes info path result c =
          super_complete_value ext return_type field_nodes info path result c)"
  by (simp add: complete_value_thenable complete_value_plain promise_then_fulfilled
      split: prod.splits)

theorem complete_value_reenters_witness:
  "complete_value demo_engine (NamedType ''Int'') [FieldNode ''b''] (GraphQLResolveInfo ''b'')
      (Path None (Key ''b'') ''Query'') (VPromise (Promise 2 (Fulfilled (VInt 5)))) \<lparr>errors = []\<rparr> =
     (Inr (VPromise (Promise 2 (Fulfilled (VInt 5)))), \<lparr>errors = []\<rparr>)
   \<and> \<not> is_thenable (VInt 5)
   \<and> complete_value demo_engine (NamedType ''Int'') [FieldNode ''b''] (GraphQLResolveInfo ''b'')
      (Path None (Key ''b'') ''Query'') (VInt 5) \<lparr>errors = []\<rparr> = (Inr (VInt 5), \<lparr>errors = []\<rparr>)"
proof -
  note inst = complete_value_reenters [of demo_engine "NamedType ''Int''" "[FieldNode ''b'']"
      "GraphQLResolveInfo ''b''" "Path None (Key ''b'') ''Query''" 2 "VInt 5" "\<lparr>errors = []\<rparr>"
      "VInt 5"]
  have plain: "complete_value demo_engine (NamedType ''Int'') [FieldNode ''b''] (GraphQLResolveInfo ''b'')
      (Path None (Key ''b'') ''Query'') (VInt 5) \<lparr>errors = []\<rparr> = (Inr (VInt 5), \<lparr>errors = []\<rparr>)"
    using inst by simp
  with inst show ?thesis by simp
qed

text \<open>
  C4, as amended. On a deferred value that rejects with a raw error, \<^verbatim>\<open>complete_value\<close>
  builds the located error from the raw error, the field nodes and the path rendered as a
  list, and passes it to \<^verbatim>\<open>handle_field_error\<close> together with the return type. When the
  handler returns, the field's deferred value fulfils with \<^verbatim>\<open>None\<close>; when the handler
  raises, the field's deferred value rejects with what the handler raised.
\<close>

theorem complete_value_rejected:
  "complete_value ext return_type field_nodes info path (VPromise (Promise t (Rejected raw_error))) c =
     (case handle_field_error ext (located_error ext raw_error field_nodes (as_list path))
             return_type c of
        (Inl raised, c') \<Rightarrow> (Inr (VPromise (Promise t (Rejected raised))), c')
      | (Inr ignored, c') \<Rightarrow> (Inr (VPromise (Promise t (Fulfilled VNone))), c'))"
  by (simp add: complete_value_thenable promise_then_rejected handle_error_def
      split: prod.splits sum.splits)

theorem complete_value_rejected_witness:
  "complete_value demo_engine (NamedType ''Int'') [FieldNode ''b''] (GraphQLResolveInfo ''b'')
      (Path None (Key ''b'') ''Query'') (VPromise (Promise 2 (Rejected (Exception ''X''))))
      \<lparr>errors = []\<rparr> =
     (Inr (VPromise (Promise 2 (Fulfilled VNone))),
      \<lparr>errors = [GraphQLError (Exception ''X'') [FieldNode ''b''] [Key ''b'']]\<rparr>)"
  using complete_value_rejected [of demo_engine "NamedType ''Int''" "[FieldNode ''b'']"
      "GraphQLResolveInfo ''b''" "Path None (Key ''b'') ''Query''" 2 "Exception ''X''"
      "\<lparr>errors = []\<rparr>"]
  by simp

text \<open>
  C4 as stated fails for a non-null field: the handler raises the located error again, so
  the field's deferred value rejects and does not resolve to \<^verbatim>\<open>None\<close>.
\<close>

theorem complete_value_non_null_counterexample:
  "complete_value demo_engine (NonNullType (NamedType ''Int'')) [FieldNode ''b'']
      (GraphQLResolveInfo ''b'') (Path None (Key ''b'') ''Query'')
      (VPromise (Promise 2 (Rejected (Exception ''X'')))) \<lparr>errors = []\<rparr> =
     (Inr (VPromise (Promise 2 (Rejected
        (GraphQLError (Exception ''X'') [FieldNode ''b''] [Key ''b''])))), \<lparr>errors = []\<rparr>)"
  by (simp add: complete_value_thenable promise_then_rejected handle_error_def)

subsection \<open>\<^verbatim>\<open>promise_for_dict\<close>\<close>

lemma dict_setitem_fresh: "k \<notin> fst ` set d \<Longrightarrow> dict_setitem d k v = d @ [(k, v)]"
  by (induction d) auto

lemma foldl_dict_setitem:
  "distinct (map fst (d @ kvs)) \<Longrightarrow> foldl (\<lambda>d (k, v). dict_setitem d k v) d kvs = d @ kvs"
proof (induction kvs arbitrary: d)
  case Nil
  then show ?case by simp
next
  case (Cons kv kvs)
  obtain k v where kv: "kv = (k, v)" by (cases kv)
  from Cons.prems kv have fresh: "k \<notin> fst ` set d" by auto
  from Cons.prems kv have "distinct (map fst ((d @ [(k, v)]) @ kvs))" by auto
  from Cons.IH [OF this] fresh kv show ?case by (simp add: dict_setitem_fresh)
qed

lemma dict_of_pairs_distinct: "distinct (map fst kvs) \<Longrightarrow> dict_of_pairs kvs = kvs"
  using foldl_dict_setitem [of "[]" kvs] by (simp add: dict_of_pairs_def)

lemma settled_values_all:
  "settled_values vs = Some rs \<Longrightarrow>
     rejections (map promise_resolve vs) = []
     \<and> fulfilled_values (map promise_resolve vs) = rs \<and> length rs = length vs"
proof (induction vs arbitrary: rs)
  case Nil
  then show ?case by simp
next
  case (Cons v vs)
  obtain t o' where p: "promise_resolve v = Promise t o'" by (cases "promise_resolve v")
  with Cons show ?case by (cases o') (auto split: option.splits)
qed

lemma promise_all_fulfilled:
  "settled_values vs = Some rs \<Longrightarrow>
     promise_all vs = Promise (last_tick (map promise_resolve vs)) (Fulfilled (VList rs))"
  by (simp add: promise_all_def settled_values_all)

lemma promise_for_dict_rejected:
  "first_rejection (rejections (map promise_resolve (dict_values d))) = Some (t, e) \<Longrightarrow>
     promise_for_dict d = Promise t (Rejected e)"
  by (simp add: promise_for_dict_def promise_all_def promise_then1_rejected)

lemma promise_for_dict_fulfilled:
  assumes "distinct (dict_keys d)" and "settled_values (dict_values d) = Some rs"
  shows "promise_for_dict d =
     Promise (last_tick (map promise_resolve (dict_values d)))
       (Fulfilled (VDict (zip (dict_keys d) rs)))"
proof -
  from assms(2) have len: "length rs = length d"
    using settled_values_all [of "dict_values d" rs] by (simp add: dict_values_def)
  with assms(1) have "distinct (map fst (zip (dict_keys d) rs))"
    by (simp add: dict_keys_def)
  then have "dict_of_pairs (zip (dict_keys d) rs) = zip (dict_keys d) rs"
    by (rule dict_of_pairs_distinct)
  with assms(2) show ?thesis
    by (simp add: promise_for_dict_def promise_all_fulfilled promise_then1_fulfilled
        handle_success_def)
qed

text \<open>
  C2, as amended. For a dict none of whose values rejects, \<^verbatim>\<open>promise_for_dict\<close> returns a
  deferred value that fulfils with a plain dict of the same keys in the same order, the
  i-th key paired with the i-th settled result that \<^verbatim>\<open>Promise.all\<close> yields for the dict's
  values. The fulfilled dict does not depend on the ticks at which the values settle: two
  dicts with the same keys and the same settled results give the same outcome. When a
  value rejects, the returned deferred value rejects with the first rejection.
\<close>

theorem promise_for_dict_settles:
  "(distinct (dict_keys d) \<and> settled_values (dict_values d) = Some rs \<longrightarrow>
      promise_all (dict_values d) =
        Promise (last_tick (map promise_resolve (dict_values d))) (Fulfilled (VList rs))
      \<and> promise_for_dict d =
        Promise (last_tick (map promise_resolve (dict_values d)))
          (Fulfilled (VDict (zip (dict_keys d) rs)))
      \<and> length rs = length (dict_keys d))
   \<and> (distinct (dict_keys d) \<and> settled_values (dict_values d) = Some rs
        \<and> dict_keys d' = dict_keys d \<and> settled_values (dict_values d') = Some rs \<longrightarrow>
      outcome (promise_for_dict d') = outcome (promise_for_dict d))
   \<and> (first_rejection (rejections (map promise_resolve (dict_values d))) = Some (t, e) \<longrightarrow>
      promise_for_dict d = Promise t (Rejected e))"
proof -
  have one: "promise_for_dict d =
        Promise (last_tick (map promise_resolve (dict_values d)))
          (Fulfilled (VDict (zip (dict_keys d) rs)))"
    if "distinct (dict_keys d)" "settled_values (dict_values d) = Some rs" for d
    using that by (rule promise_for_dict_fulfilled)
  have len: "length rs = length (dict_keys d)" if "settled_values (dict_values d) = Some rs"
    using settled_values_all [OF that] by (simp add: dict_values_def dict_keys_def)
  have two: "outcome (promise_for_dict d') = outcome (promise_for_dict d)"
    if "distinct (dict_keys d)" "settled_values (dict_values d) = Some rs"
      "dict_keys d' = dict_keys d" "settled_values (dict_values d') = Some rs"
    using one [of d] one [of d'] that by simp
  from one [of d] two len promise_all_fulfilled [of "dict_values d" rs]
    promise_for_dict_rejected [of d t e]
  show ?thesis by blast
qed

theorem promise_for_dict_settles_witness:
  "promise_for_dict
      [(''a'', VInt 1), (''b'', VPromise (Promise 9 (Fulfilled (VInt 2)))),
       (''c'', VPromise (Promise 4 (Fulfilled (VInt 3))))] =
     Promise 9 (Fulfilled (VDict [(''a'', VInt 1), (''b'', VInt 2), (''c'', VInt 3)]))
   \<and> outcome (promise_for_dict
      [(''a'', VInt 1), (''b'', VPromise (Promise 2 (Fulfilled (VInt 2)))),
       (''c'', VPromise (Promise 4 (Fulfilled (VInt 3))))]) =
     Fulfilled (VDict [(''a'', VInt 1), (''b'', VInt 2), (''c'', VInt 3)])
   \<and> promise_for_dict
      [(''a'', VPromise (Promise 5 (Rejected (Exception ''late'')))),
       (''b'', VPromise (Promise 2 (Rejected (Exception ''early''))))] =
     Promise 2 (Rejected (Exception ''early''))"
proof -
  let ?d = "[(''a'', VInt 1), (''b'', VPromise (Promise 9 (Fulfilled (VInt 2)))),
       (''c'', VPromise (Promise 4 (Fulfilled (VInt 3))))]"
  let ?d' = "[(''a'', VInt 1), (''b'', VPromise (Promise 2 (Fulfilled (VInt 2)))),
       (''c'', VPromise (Promise 4 (Fulfilled (VInt 3))))]"
  let ?r = "[(''a'', VPromise (Promise 5 (Rejected (Exception ''late'')))),
       (''b'', VPromise (Promise 2 (Rejected (Exception ''early''))))]"
  have keys: "distinct (dict_keys ?d)" "dict_keys ?d' = dict_keys ?d"
    by (simp_all add: dict_keys_def)
  have vals: "settled_values (dict_values ?d) = Some [VInt 1, VInt 2, VInt 3]"
    "settled_values (dict_values ?d') = Some [VInt 1, VInt 2, VInt 3]"
    by (simp_all add: dict_values_def)
  have rej: "first_rejection (rejections (map promise_resolve (dict_values ?r))) =
      Some (2, Exception ''early'')"
    by (simp add: dict_values_def)
  from promise_for_dict_settles [of ?d "[VInt 1, VInt 2, VInt 3]" ?d'] keys vals
  have "promise_for_dict ?d =
        Promise (last_tick (map promise_resolve (dict_values ?d)))
          (Fulfilled (VDict (zip (dict_keys ?d) [VInt 1, VInt 2, VInt 3])))"
    and "outcome (promise_for_dict ?d') = outcome (promise_for_dict ?d)"
    by blast+
  moreover from promise_for_dict_settles [of ?r _ _ 2 "Exception ''early''"] rej
  have "promise_for_dict ?r = Promise 2 (Rejected (Exception ''early''))"
    by blast
  ultimately show ?thesis by (simp add: dict_values_def dict_keys_def)
qed

text \<open>
  C2 as stated fails on a dict with a value that rejects: the deferred value returned
  does not fulfil with a mapping, it rejects.
\<close>

theorem promise_for_dict_rejects_counterexample:
  "promise_for_dict [(''a'', VInt 1), (''b'', VPromise (Promise 1 (Rejected (Exception ''X''))))] =
     Promise 1 (Rejected (Exception ''X''))"
  by (simp add: promise_for_dict_def promise_all_def promise_then1_rejected dict_values_def)

subsection \<open>\<^verbatim>\<open>execute_fields\<close>\<close>

lemma invoke_in_order_length:
  "invoke_in_order f xs s = (Inr ys, s') \<Longrightarrow> length ys = length xs"
  by (induction xs arbitrary: s ys) (auto split: prod.splits sum.splits)

lemma collected_keys: "fst ` set (collected keys rs) \<subseteq> set keys"
  by (auto simp: collected_def dest: set_zip_leftD)

lemma execute_fields_loop_eq:
  "distinct (map fst field_items) \<Longrightarrow> fst ` set results \<inter> fst ` set field_items = {} \<Longrightarrow>
   execute_fields_loop ext parent_type source_value path field_items contains_promise results c =
     (case invoke_in_order (\<lambda>(field_nodes, field_path).
               resolve_field ext parent_type source_value field_nodes field_path)
             (field_calls parent_type path field_items) c of
        (Inl raised, c') \<Rightarrow> (Inl raised, c')
      | (Inr rs, c') \<Rightarrow>
          (Inr (contains_promise \<or> list_ex is_thenable rs,
                results @ collected (map fst field_items) rs), c'))"
proof (induction field_items arbitrary: contains_promise results c)
  case Nil
  then show ?case by (simp add: field_calls_def collected_def)
next
  case (Cons item field_items)
  obtain response_name field_nodes where item: "item = (response_name, field_nodes)"
    by (cases item)
  from Cons.prems item have fresh: "response_name \<notin> fst ` set results" by auto
  from Cons.prems item have dist: "distinct (map fst field_items)" by simp
  from Cons.prems item
  have disj1: "fst ` set (results @ [(response_name, r)]) \<inter> fst ` set field_items = {}" for r
    by auto
  from Cons.prems have disj2: "fst ` set results \<inter> fst ` set field_items = {}" by auto
  have tail: "field_calls parent_type path ((response_name, field_nodes) # field_items) =
      (field_nodes, Path path (Key response_name) (name parent_type))
        # field_calls parent_type path field_items"
    by (simp add: field_calls_def)
  let ?f = "\<lambda>(field_nodes, field_path).
               resolve_field ext parent_type source_value field_nodes field_path"
  obtain r c1 where call: "resolve_field ext parent_type source_value field_nodes
      (Path path (Key response_name) (name parent_type)) c = (r, c1)"
    by (cases "resolve_field ext parent_type source_value field_nodes
      (Path path (Key response_name) (name parent_type)) c")
  show ?case
  proof (cases r)
    case (Inl raised)
    with call show ?thesis by (simp add: tail item)
  next
    case (Inr result)
    obtain r2 c2 where rest: "invoke_in_order ?f (field_calls parent_type path field_items) c1 = (r2, c2)"
      by (cases "invoke_in_order ?f (field_calls parent_type path field_items) c1")
    show ?thesis
    proof (cases "result = Undefined")
      case True
      with call Inr rest show ?thesis
        by (simp add: tail item Cons.IH [OF dist disj2] collected_def split: sum.splits)
    next
      case False
      with call Inr rest show ?thesis
        by (simp add: tail item Cons.IH [OF dist disj1] dict_setitem_fresh fresh collected_def
            split: sum.splits)
    qed
  qed
qed

lemma list_ex_collected:
  "length rs = length keys \<Longrightarrow>
     list_ex is_thenable (dict_values (collected keys rs)) = list_ex is_thenable rs"
proof (induction keys arbitrary: rs)
  case Nil
  then show ?case by (simp add: collected_def dict_values_def)
next
  case (Cons k keys)
  then obtain r rs' where rs: "rs = r # rs'" by (cases rs) auto
  with Cons.prems have "length rs' = length keys" by simp
  from Cons.IH [OF this] rs show ?case
    by (cases r) (simp_all add: collected_def dict_values_def)
qed

text \<open>
  C1. For every dict of fields (its keys are distinct), once the loop of \<^verbatim>\<open>execute_fields\<close>
  has collected its results, the method returns the plain dict of the results, and no
  deferred value, if none of the results is thenable, and the deferred dict
  \<^verbatim>\<open>promise_for_dict(results)\<close> of all the results if one of them is. An exception raised
  by a resolver call leaves the method as it is.
\<close>

theorem execute_fields_fast_path:
  assumes "distinct (dict_keys field_items)"
  shows "execute_fields ext parent_type source_value path field_items c =
     (case execute_fields_loop ext parent_type source_value path field_items False [] c of
        (Inl raised, c') \<Rightarrow> (Inl raised, c')
      | (Inr (contains_promise, results), c') \<Rightarrow>
          if list_ex is_thenable (dict_values results)
          then (Inr (VPromise (promise_for_dict results)), c')
          else (Inr (VDict results), c'))"
proof -
  from assms have dist: "distinct (map fst field_items)" by (simp add: dict_keys_def)
  let ?run = "invoke_in_order (\<lambda>(field_nodes, field_path).
               resolve_field ext parent_type source_value field_nodes field_path)
             (field_calls parent_type path field_items) c"
  have loop: "execute_fields_loop ext parent_type source_value path field_items False [] c =
     (case ?run of
        (Inl raised, c') \<Rightarrow> (Inl raised, c')
      | (Inr rs, c') \<Rightarrow>
          (Inr (list_ex is_thenable rs, collected (map fst field_items) rs), c'))"
    using execute_fields_loop_eq [OF dist, of "[]" ext parent_type source_value path False c]
    by (auto split: prod.splits sum.splits)
  obtain r c' where run: "?run = (r, c')" by (cases ?run)
  show ?thesis
  proof (cases r)
    case (Inl raised)
    with run loop show ?thesis by (simp add: execute_fields_def)
  next
    case (Inr rs)
    with run have "length rs = length (map fst field_items)"
      using invoke_in_order_length [of _ "field_calls parent_type path field_items" c rs c']
      by (simp add: field_calls_def)
    from list_ex_collected [OF this] Inr run loop show ?thesis
      by (simp add: execute_fields_def)
  qed
qed

theorem execute_fields_fast_path_witness:
  "execute_fields demo_engine (GraphQLObjectType ''Query'') demo_source None
      (demo_fields [''a'', ''c'']) \<lparr>errors = []\<rparr> =
     (Inr (VDict [(''a'', VInt 1), (''c'', VInt 3)]), \<lparr>errors = []\<rparr>)
   \<and> execute_fields demo_engine (GraphQLObjectType ''Query'') demo_source None
      (demo_fields [''a'', ''b'', ''c'']) \<lparr>errors = []\<rparr> =
     (Inr (VPromise (promise_for_dict
        [(''a'', VInt 1), (''b'', VPromise (Promise 4 (Fulfilled (VInt 2)))), (''c'', VInt 3)])),
      \<lparr>errors = []\<rparr>)"
proof -
  have keys: "distinct (dict_keys (demo_fields [''a'', ''c'']))"
    "distinct (dict_keys (demo_fields [''a'', ''b'', ''c'']))"
    by (simp_all add: dict_keys_def demo_fields_def)
  show ?thesis
    using execute_fields_fast_path [OF keys(1), of demo_engine "GraphQLObjectType ''Query''"
        demo_source None "\<lparr>errors = []\<rparr>"]
      execute_fields_fast_path [OF keys(2), of demo_engine "GraphQLObjectType ''Query''"
        demo_source None "\<lparr>errors = []\<rparr>"]
    by (simp add: demo_fields_def demo_source_def dict_values_def)
qed

lemma zip_functional:
  assumes "distinct keys" "(k, a) \<in> set (zip keys rs)" "(k, b) \<in> set (zip keys rs)"
  shows "a = b"
proof -
  have "distinct (map fst (zip keys rs))"
    using assms(1) by (simp add: map_fst_zip_take)
  with assms(2,3) show ?thesis
    by (metis map_of_is_SomeI option.inject)
qed

lemma collected_skips_undefined:
  assumes "distinct keys" "(k, Undefined) \<in> set (zip keys rs)"
  shows "k \<notin> set (dict_keys (collected keys rs))"
proof
  assume "k \<in> set (dict_keys (collected keys rs))"
  then obtain r where "(k, r) \<in> set (zip keys rs)" "r \<noteq> Undefined"
    by (auto simp: dict_keys_def collected_def)
  with assms zip_functional [of keys k r rs Undefined] show False by simp
qed

lemma invoke_in_order_append:
  "invoke_in_order f (xs @ ys) s =
     (case invoke_in_order f xs s of
        (Inl raised, s') \<Rightarrow> (Inl raised, s')
      | (Inr rs, s') \<Rightarrow>
          (case invoke_in_order f ys s' of
             (Inl raised, s'') \<Rightarrow> (Inl raised, s'')
           | (Inr rs', s'') \<Rightarrow> (Inr (rs @ rs'), s'')))"
  by (induction xs arbitrary: s) (auto split: prod.splits sum.splits)

lemma field_calls_append:
  "field_calls parent_type path (xs @ ys) =
     field_calls parent_type path xs @ field_calls parent_type path ys"
  by (simp add: field_calls_def)

lemma invoke_in_order_raise:
  assumes "invoke_in_order f xs s = (Inr rs, s1)" and "f x s1 = (Inl raised, s2)"
  shows "invoke_in_order f (xs @ x # ys) s = (Inl raised, s2)"
  using assms by (simp add: invoke_in_order_append)

lemma execute_fields_run:
  assumes "distinct (dict_keys field_items)"
  shows "execute_fields ext parent_type source_value path field_items c =
     (case invoke_in_order (\<lambda>(field_nodes, field_path).
               resolve_field ext parent_type source_value field_nodes field_path)
             (field_calls parent_type path field_items) c of
        (Inl raised, c') \<Rightarrow> (Inl raised, c')
      | (Inr rs, c') \<Rightarrow>
          if list_ex is_thenable rs
          then (Inr (VPromise (promise_for_dict (collected (dict_keys field_items) rs))), c')
          else (Inr (VDict (collected (dict_keys field_items) rs)), c'))"
proof -
  from assms have dist: "distinct (map fst field_items)" by (simp add: dict_keys_def)
  have loop: "execute_fields_loop ext parent_type source_value path field_items False [] c =
     (case invoke_in_order (\<lambda>(field_nodes, field_path).
               resolve_field ext parent_type source_value field_nodes field_path)
             (field_calls parent_type path field_items) c of
        (Inl raised, c') \<Rightarrow> (Inl raised, c')
      | (Inr rs, c') \<Rightarrow>
          (Inr (list_ex is_thenable rs, collected (map fst field_items) rs), c'))"
    using execute_fields_loop_eq [OF dist, of "[]" ext parent_type source_value path False c]
    by (auto split: prod.splits sum.splits)
  show ?thesis
    by (simp add: execute_fields_def loop dict_keys_def split: prod.splits sum.splits)
qed

text \<open>
  C8, as amended. For every dict of fields (its keys are distinct), \<^verbatim>\<open>execute_fields\<close>
  behaves as the run that calls the field resolver once for each response key, in the
  declared order, each call in the context the previous one left, with the field nodes of
  the key and the fresh path \<^verbatim>\<open>Path(path, response_name, parent_type.name)\<close>, up to and
  including the first call that raises: that call ends the loop, the keys after it are not
  resolved, and its exception leaves the method. When no call raises there is one result
  for each key, and the results mapping holds the keys with their results except those
  whose result is \<open>Undefined\<close>: such a key has no entry at all.
\<close>

theorem execute_fields_resolves_until_raise:
  assumes "distinct (dict_keys field_items)"
  shows "execute_fields ext parent_type source_value path field_items c =
     (case invoke_in_order (\<lambda>(field_nodes, field_path).
               resolve_field ext parent_type source_value field_nodes field_path)
             (field_calls parent_type path field_items) c of
        (Inl raised, c') \<Rightarrow> (Inl raised, c')
      | (Inr rs, c') \<Rightarrow>
          if list_ex is_thenable rs
          then (Inr (VPromise (promise_for_dict (collected (dict_keys field_items) rs))), c')
          else (Inr (VDict (collected (dict_keys field_items) rs)), c'))
   \<and> map snd (field_calls parent_type path field_items) =
       map (\<lambda>response_name. Path path (Key response_name) (name parent_type))
         (dict_keys field_items)
   \<and> map fst (field_calls parent_type path field_items) = dict_values field_items
   \<and> (invoke_in_order (\<lambda>(field_nodes, field_path).
               resolve_field ext parent_type source_value field_nodes field_path)
             (field_calls parent_type path field_items) c = (Inr rs, c') \<longrightarrow>
        length rs = length field_items
        \<and> (\<forall>k. (k, Undefined) \<in> set (zip (dict_keys field_items) rs) \<longrightarrow>
               k \<notin> set (dict_keys (collected (dict_keys field_items) rs))))
   \<and> (field_items = before @ (response_name, field_nodes) # after
       \<and> invoke_in_order (\<lambda>(field_nodes, field_path).
               resolve_field ext parent_type source_value field_nodes field_path)
             (field_calls parent_type path before) c = (Inr rs1, c1)
       \<and> resolve_field ext parent_type source_value field_nodes
             (Path path (Key response_name) (name parent_type)) c1 = (Inl raised, c2) \<longrightarrow>
        execute_fields ext parent_type source_value path field_items c = (Inl raised, c2))"
proof -
  let ?f = "\<lambda>(field_nodes, field_path).
               resolve_field ext parent_type source_value field_nodes field_path"
  let ?run = "invoke_in_order ?f (field_calls parent_type path field_items) c"
  note first = execute_fields_run [OF assms, of ext parent_type source_value path c]
  have paths: "map snd (field_calls parent_type path field_items) =
       map (\<lambda>response_name. Path path (Key response_name) (name parent_type))
         (dict_keys field_items)"
    by (simp add: field_calls_def dict_keys_def split_def)
  have nodes: "map fst (field_calls parent_type path field_items) = dict_values field_items"
    by (simp add: field_calls_def dict_values_def split_def)
  have len: "length rs = length field_items" if "?run = (Inr rs, c')"
    using invoke_in_order_length [OF that] by (simp add: field_calls_def)
  have skip: "k \<notin> set (dict_keys (collected (dict_keys field_items) rs))"
    if "(k, Undefined) \<in> set (zip (dict_keys field_items) rs)" for k
    using collected_skips_undefined [OF assms that] .
  have stop: "execute_fields ext parent_type source_value path field_items c = (Inl raised, c2)"
    if items: "field_items = before @ (response_name, field_nodes) # after"
      and before: "invoke_in_order ?f (field_calls parent_type path before) c = (Inr rs1, c1)"
      and call: "resolve_field ext parent_type source_value field_nodes
             (Path path (Key response_name) (name parent_type)) c1 = (Inl raised, c2)"
  proof -
    have calls: "field_calls parent_type path field_items =
        field_calls parent_type path before
          @ (field_nodes, Path path (Key response_name) (name parent_type))
          # field_calls parent_type path after"
      by (simp add: items field_calls_def)
    from call have "?f (field_nodes, Path path (Key response_name) (name parent_type)) c1 =
        (Inl raised, c2)"
      by simp
    from invoke_in_order_raise [OF before this] have "?run = (Inl raised, c2)"
      by (simp only: calls)
    with first show ?thesis by simp
  qed
  from first paths nodes len skip stop show ?thesis by blast
qed

theorem execute_fields_resolves_until_raise_witness:
  "execute_fields recording_engine (GraphQLObjectType ''Query'') demo_source None
      (demo_fields [''a'', ''z'', ''c'']) \<lparr>errors = [], \<dots> = []\<rparr> =
     (Inr (VDict [(''a'', VInt 1), (''c'', VInt 3)]), \<lparr>errors = [], \<dots> = [''a'', ''z'', ''c'']\<rparr>)
   \<and> invoke_in_order (\<lambda>(field_nodes, field_path).
          resolve_field recording_engine (GraphQLObjectType ''Query'') demo_source field_nodes
            field_path)
        (field_calls (GraphQLObjectType ''Query'') None (demo_fields [''a'', ''z'', ''c'']))
        \<lparr>errors = [], \<dots> = []\<rparr> =
     (Inr [VInt 1, Undefined, VInt 3], \<lparr>errors = [], \<dots> = [''a'', ''z'', ''c'']\<rparr>)
   \<and> ''z'' \<notin> set (dict_keys (collected (dict_keys (demo_fields [''a'', ''z'', ''c'']))
        [VInt 1, Undefined, VInt 3]))"
proof -
  let ?item = "demo_fields [''a'', ''z'', ''c'']"
  let ?c = "\<lparr>errors = [], \<dots> = []::string list\<rparr>"
  let ?c' = "\<lparr>errors = [], \<dots> = [''a'', ''z'', ''c'']\<rparr>"
  let ?run = "invoke_in_order (\<lambda>(field_nodes, field_path).
          resolve_field recording_engine (GraphQLObjectType ''Query'') demo_source field_nodes
            field_path)
        (field_calls (GraphQLObjectType ''Query'') None ?item) ?c"
  have keys: "distinct (dict_keys ?item)"
    by (simp add: dict_keys_def demo_fields_def)
  have run: "?run = (Inr [VInt 1, Undefined, VInt 3], ?c')"
    by (simp add: demo_fields_def demo_source_def field_calls_def)
  have zipped: "(''z'', Undefined) \<in> set (zip (dict_keys ?item) [VInt 1, Undefined, VInt 3])"
    by (simp add: dict_keys_def demo_fields_def)
  note inst = execute_fields_resolves_until_raise [OF keys, where ext = recording_engine
      and parent_type = "GraphQLObjectType ''Query''" and source_value = demo_source
      and path = None and c = ?c and rs = "[VInt 1, Undefined, VInt 3]" and c' = ?c']
  from inst run zipped
  have absent: "''z'' \<notin> set (dict_keys (collected (dict_keys ?item) [VInt 1, Undefined, VInt 3]))"
    by blast
  from inst run
  have "execute_fields recording_engine (GraphQLObjectType ''Query'') demo_source None ?item ?c =
     (Inr (VDict (collected (dict_keys ?item) [VInt 1, Undefined, VInt 3])), ?c')"
    by simp
  then have "execute_fields recording_engine (GraphQLObjectType ''Query'') demo_source None ?item
      ?c = (Inr (VDict [(''a'', VInt 1), (''c'', VInt 3)]), ?c')"
    by (simp add: collected_def dict_keys_def demo_fields_def)
  with run absent show ?thesis by simp
qed

text \<open>
  C8 as stated fails when a resolver call raises: with the fields \<open>a\<close>, \<open>x\<close>, \<open>c\<close> and a
  resolver that raises at \<open>x\<close>, the record of the calls holds \<open>a\<close> and \<open>x\<close> only. The key
  \<open>c\<close> is never resolved.
\<close>

theorem execute_fields_raise_counterexample:
  "execute_fields recording_engine (GraphQLObjectType ''Query'') demo_source None
      (demo_fields [''a'', ''x'', ''c'']) \<lparr>errors = [], \<dots> = []\<rparr> =
     (Inl (Exception ''X''), \<lparr>errors = [], \<dots> = [''a'', ''x'']\<rparr>)"
  by (simp add: execute_fields_def demo_fields_def demo_source_def)

subsection \<open>The error list\<close>

lemma appends_onlyI: "(\<And>c. prefix (errors c) (errors (snd (f c)))) \<Longrightarrow> appends_only f"
  by (simp add: appends_only_def)

lemma appends_onlyD: "appends_only f \<Longrightarrow> prefix (errors c) (errors (snd (f c)))"
  by (simp add: appends_only_def)

lemma snd_execute_operation:
  "snd (execute_operation ext operation root_value c) =
     snd (super_execute_operation ext operation root_value c)"
  by (simp add: execute_operation_def promise_then1_fulfilled split: prod.splits)

lemma snd_build_response_rejected:
  "snd (build_response ext (VPromise (Promise t (Rejected e))) c) =
     snd (super_build_response ext VNone (c\<lparr>errors := errors c @ [e]\<rparr>))"
  by (simp add: build_response_def promise_catch_rejected on_rejected_def promise_then1_fulfilled
      split: prod.splits)

lemma snd_build_response_fulfilled:
  "snd (build_response ext (VPromise (Promise t (Fulfilled v))) c) =
     snd (super_build_response ext v c)"
  by (simp add: build_response_def promise_catch_fulfilled promise_then1_fulfilled
      split: prod.splits)

lemma snd_handle_error:
  "snd (handle_error ext return_type field_nodes path raw_error c) =
     snd (handle_field_error ext (located_error ext raw_error field_nodes (as_list path))
            return_type c)"
  by (simp add: handle_error_def split: prod.splits sum.splits)

lemma build_response_appends:
  assumes "\<And>d. appends_only (super_build_response ext d)"
  shows "prefix (errors c) (errors (snd (build_response ext data c)))"
proof (cases "is_thenable data")
  case True
  then obtain t o' where data: "data = VPromise (Promise t o')"
    by (metis is_thenable_iff promise.exhaust)
  show ?thesis
  proof (cases o')
    case (Fulfilled v)
    with data show ?thesis
      using appends_onlyD [OF assms, of c v] by (simp add: snd_build_response_fulfilled)
  next
    case (Rejected e)
    have "prefix (errors c) (errors (c\<lparr>errors := errors c @ [e]\<rparr>))" by simp
    also have "prefix \<dots> (errors (snd (super_build_response ext VNone (c\<lparr>errors := errors c @ [e]\<rparr>))))"
      by (rule appends_onlyD [OF assms])
    finally show ?thesis using data Rejected by (simp add: snd_build_response_rejected)
  qed
next
  case False
  then show ?thesis
    using appends_onlyD [OF assms, of c data] by (simp add: build_response_def)
qed

lemma complete_value_appends:
  assumes "\<And>e rt. appends_only (handle_field_error ext e rt)"
    and "\<And>rt n i p r. appends_only (super_complete_value ext rt n i p r)"
  shows "prefix (errors c) (errors (snd (complete_value ext return_type field_nodes info path result c)))"
  using assms
proof (induction ext return_type field_nodes info path result c rule: complete_value.induct)
  case (1 ext return_type field_nodes info path result c)
  note handler = "1.prems"(1) and base = "1.prems"(2)
  show ?case
  proof (cases "is_thenable result")
    case True
    then obtain t o' where result: "result = VPromise (Promise t o')"
      by (metis is_thenable_iff promise.exhaust)
    show ?thesis
    proof (cases o')
      case (Fulfilled v)
      with result True have "outcome (promise_resolve result) = Fulfilled v" by simp
      from "1.IH" [OF True this handler base] result Fulfilled show ?thesis
        by (auto simp: complete_value_thenable promise_then_fulfilled split: prod.splits)
    next
      case (Rejected e)
      with result show ?thesis
        using appends_onlyD [OF handler, of c "located_error ext e field_nodes (as_list path)"
            return_type] snd_handle_error [of ext return_type field_nodes path e c]
        by (auto simp: complete_value_thenable promise_then_rejected split: prod.splits)
    qed
  next
    case False
    then show ?thesis
      using appends_onlyD [OF base, of c return_type field_nodes info path result]
      by (simp add: complete_value_plain)
  qed
qed

lemma execute_fields_loop_appends:
  assumes "\<And>pt s n p. appends_only (resolve_field ext pt s n p)"
  shows "prefix (errors c) (errors (snd (execute_fields_loop ext parent_type source_value path
      field_items contains_promise results c)))"
proof (induction field_items arbitrary: contains_promise results c)
  case Nil
  then show ?case by simp
next
  case (Cons item field_items)
  obtain response_name field_nodes where item: "item = (response_name, field_nodes)"
    by (cases item)
  obtain r c1 where call: "resolve_field ext parent_type source_value field_nodes
      (Path path (Key response_name) (name parent_type)) c = (r, c1)"
    by (cases "resolve_field ext parent_type source_value field_nodes
      (Path path (Key response_name) (name parent_type)) c")
  have step: "prefix (errors c) (errors c1)"
    using appends_onlyD [OF assms, of c parent_type source_value field_nodes
        "Path path (Key response_name) (name parent_type)"] call by simp
  show ?case
  proof (cases r)
    case (Inl raised)
    with call step item show ?thesis by simp
  next
    case (Inr result)
    have "prefix (errors c1) (errors (snd (execute_fields_loop ext parent_type source_value path
      field_items cp' results' c1)))" for cp' results'
      by (rule Cons.IH)
    with step have "prefix (errors c) (errors (snd (execute_fields_loop ext parent_type
      source_value path field_items cp' results' c1)))" for cp' results'
      using prefix_order.order_trans by blast
    with call Inr item show ?thesis by simp
  qed
qed

lemma execute_fields_appends:
  assumes "\<And>pt s n p. appends_only (resolve_field ext pt s n p)"
  shows "prefix (errors c) (errors (snd (execute_fields ext parent_type source_value path
      field_items c)))"
proof -
  obtain r c' where loop: "execute_fields_loop ext parent_type source_value path field_items
      False [] c = (r, c')"
    by (cases "execute_fields_loop ext parent_type source_value path field_items False [] c")
  with execute_fields_loop_appends [OF assms, of c parent_type source_value path field_items
      False "[]"]
  have "prefix (errors c) (errors c')" by simp
  with loop show ?thesis
    by (simp add: execute_fields_def split: sum.splits prod.splits)
qed

lemma builder_input_appends: "prefix (errors c) (errors (snd (builder_input data c)))"
  by (induction data c rule: builder_input.induct) simp_all

lemma snd_build_response:
  "snd (build_response ext data c) =
     snd (super_build_response ext (fst (builder_input data c)) (snd (builder_input data c)))"
  by (simp add: build_response_eq split: prod.splits)

lemma snd_execute_fields_loop:
  "snd (execute_fields_loop ext parent_type source_value path field_items contains_promise
          results c) =
     snd (invoke_in_order (\<lambda>(field_nodes, field_path).
               resolve_field ext parent_type source_value field_nodes field_path)
            (field_calls parent_type path field_items) c)"
proof (induction field_items arbitrary: contains_promise results c)
  case Nil
  then show ?case by (simp add: field_calls_def)
next
  case (Cons item field_items)
  obtain response_name field_nodes where item: "item = (response_name, field_nodes)"
    by (cases item)
  have calls: "field_calls parent_type path ((response_name, field_nodes) # field_items) =
      (field_nodes, Path path (Key response_name) (name parent_type))
        # field_calls parent_type path field_items"
    by (simp add: field_calls_def)
  obtain r c1 where call: "resolve_field ext parent_type source_value field_nodes
      (Path path (Key response_name) (name parent_type)) c = (r, c1)"
    by (cases "resolve_field ext parent_type source_value field_nodes
      (Path path (Key response_name) (name parent_type)) c")
  show ?case
  proof (cases r)
    case (Inl raised)
    with call show ?thesis by (simp add: item calls)
  next
    case (Inr result)
    with call show ?thesis
      by (auto simp: item calls Cons.IH split: prod.splits sum.splits)
  qed
qed

lemma snd_execute_fields:
  "snd (execute_fields ext parent_type source_value path field_items c) =
     snd (invoke_in_order (\<lambda>(field_nodes, field_path).
               resolve_field ext parent_type source_value field_nodes field_path)
            (field_calls parent_type path field_items) c)"
proof -
  have "snd (execute_fields ext parent_type source_value path field_items c) =
      snd (execute_fields_loop ext parent_type source_value path field_items False [] c)"
    by (simp add: execute_fields_def split: prod.splits sum.splits)
  then show ?thesis by (simp only: snd_execute_fields_loop)
qed

lemma snd_complete_value_fulfilled:
  "snd (complete_value ext return_type field_nodes info path
          (VPromise (Promise t (Fulfilled v))) c) =
     snd (complete_value ext return_type field_nodes info path v c)"
  by (simp add: complete_value_thenable promise_then_fulfilled split: prod.splits)

lemma snd_complete_value_rejected:
  "snd (complete_value ext return_type field_nodes info path
          (VPromise (Promise t (Rejected raw_error))) c) =
     snd (handle_error ext return_type field_nodes path raw_error c)"
  by (simp add: complete_value_thenable promise_then_rejected split: prod.splits)

text \<open>
  C9, as amended. The code of the module itself only ever appends to the error list: the
  rejection handler of \<^verbatim>\<open>build_response\<close> appends exactly the rejection, the error branch
  of \<^verbatim>\<open>complete_value\<close> changes the context only through \<^verbatim>\<open>handle_field_error\<close>, and every
  other change is made by an inherited method. So \<^verbatim>\<open>execute_operation\<close>, \<^verbatim>\<open>complete_value\<close>
  and \<^verbatim>\<open>execute_fields\<close> neither remove nor reorder an entry provided the inherited methods
  they call do not, and \<^verbatim>\<open>build_response\<close> hands the inherited envelope builder a list
  that extends the one it found and leaves the list as that builder leaves it: append-only
  if the builder is, and not otherwise.
\<close>

theorem errors_appended_by_module:
  "errors (snd (on_rejected error c)) = errors c @ [error]
   \<and> snd (handle_error ext return_type field_nodes path raw_error c) =
        snd (handle_field_error ext (located_error ext raw_error field_nodes (as_list path))
               return_type c)
   \<and> snd (execute_operation ext operation root_value c) =
        snd (super_execute_operation ext operation root_value c)
   \<and> snd (build_response ext data c) =
        snd (super_build_response ext (fst (builder_input data c)) (snd (builder_input data c)))
   \<and> prefix (errors c) (errors (snd (builder_input data c)))
   \<and> snd (complete_value ext return_type field_nodes info path
             (VPromise (Promise t (Rejected raw_error))) c) =
        snd (handle_error ext return_type field_nodes path raw_error c)
   \<and> snd (complete_value ext return_type field_nodes info path
             (VPromise (Promise t (Fulfilled v))) c) =
        snd (complete_value ext return_type field_nodes info path v c)
   \<and> (\<not> is_thenable result \<longrightarrow>
        snd (complete_value ext return_type field_nodes info path result c) =
          snd (super_complete_value ext return_type field_nodes info path result c))
   \<and> snd (execute_fields ext parent_type source_value parent_path field_items c) =
        snd (invoke_in_order (\<lambda>(field_nodes, field_path).
                  resolve_field ext parent_type source_value field_nodes field_path)
               (field_calls parent_type parent_path field_items) c)
   \<and> ((\<forall>op r. appends_only (super_execute_operation ext op r)) \<longrightarrow>
        appends_only (execute_operation ext operation root_value))
   \<and> ((\<forall>e rt. appends_only (handle_field_error ext e rt))
        \<and> (\<forall>rt n i p r. appends_only (super_complete_value ext rt n i p r)) \<longrightarrow>
        appends_only (complete_value ext return_type field_nodes info path result))
   \<and> ((\<forall>pt s n p. appends_only (resolve_field ext pt s n p)) \<longrightarrow>
        appends_only (execute_fields ext parent_type source_value parent_path field_items))
   \<and> ((\<forall>d. appends_only (super_build_response ext d)) \<longrightarrow>
        appends_only (build_response ext data))"
proof -
  have "errors (snd (on_rejected error c)) = errors c @ [error]"
    by (simp add: on_rejected_def)
  moreover have "appends_only (execute_operation ext operation root_value)"
    if "\<forall>op r. appends_only (super_execute_operation ext op r)"
    using that by (simp add: appends_only_def snd_execute_operation)
  moreover have "appends_only (complete_value ext return_type field_nodes info path result)"
    if "\<forall>e rt. appends_only (handle_field_error ext e rt)"
      "\<forall>rt n i p r. appends_only (super_complete_value ext rt n i p r)"
    by (rule appends_onlyI, rule complete_value_appends) (use that in simp_all)
  moreover have "appends_only (execute_fields ext parent_type source_value parent_path field_items)"
    if "\<forall>pt s n p. appends_only (resolve_field ext pt s n p)"
    by (rule appends_onlyI, rule execute_fields_appends) (use that in simp)
  moreover have "appends_only (build_response ext data)"
    if "\<forall>d. appends_only (super_build_response ext d)"
    by (rule appends_onlyI, rule build_response_appends) (use that in simp)
  moreover have "snd (complete_value ext return_type field_nodes info path result c) =
      snd (super_complete_value ext return_type field_nodes info path result c)"
    if "\<not> is_thenable result"
    using that by (simp add: complete_value_plain)
  ultimately show ?thesis
    using snd_handle_error [of ext return_type field_nodes path raw_error c]
      snd_execute_operation [of ext operation root_value c]
      snd_build_response [of ext data c] builder_input_appends [of c data]
      snd_complete_value_rejected [of ext return_type field_nodes info path t raw_error c]
      snd_complete_value_fulfilled [of ext return_type field_nodes info path t v c]
      snd_execute_fields [of ext parent_type source_value parent_path field_items c]
    by blast
qed

theorem errors_appended_by_module_witness:
  "prefix [Exception ''A'']
     (errors (snd (complete_value demo_engine (NamedType ''Int'') [FieldNode ''b'']
        (GraphQLResolveInfo ''b'') (Path None (Key ''b'') ''Query'')
        (VPromise (Promise 2 (Rejected (Exception ''X'')))) \<lparr>errors = [Exception ''A'']\<rparr>)))
   \<and> errors (snd (complete_value demo_engine (NamedType ''Int'') [FieldNode ''b'']
        (GraphQLResolveInfo ''b'') (Path None (Key ''b'') ''Query'')
        (VPromise (Promise 2 (Rejected (Exception ''X'')))) \<lparr>errors = [Exception ''A'']\<rparr>)) =
      [Exception ''A'', GraphQLError (Exception ''X'') [FieldNode ''b''] [Key ''b'']]
   \<and> errors (snd (build_response demo_engine (VPromise (Promise 3 (Rejected (Exception ''X''))))
        \<lparr>errors = [Exception ''A'']\<rparr>)) = [Exception ''A'', Exception ''X'']"
proof -
  note inst = errors_appended_by_module [where ext = demo_engine
      and return_type = "NamedType ''Int''" and field_nodes = "[FieldNode ''b'']"
      and info = "GraphQLResolveInfo ''b''" and path = "Path None (Key ''b'') ''Query''"
      and result = "VPromise (Promise 2 (Rejected (Exception ''X'')))"
      and data = "VPromise (Promise 3 (Rejected (Exception ''X'')))"
      and c = "\<lparr>errors = [Exception ''A'']\<rparr>"]
  have handler: "\<forall>e rt. appends_only (handle_field_error demo_engine e rt)"
    by (simp add: appends_only_def demo_handle_field_error_appends)
  have base: "\<forall>rt n i p r. appends_only (super_complete_value demo_engine rt n i p r)"
    by (simp add: appends_only_def)
  from inst handler base
  have "appends_only (complete_value demo_engine (NamedType ''Int'') [FieldNode ''b'']
        (GraphQLResolveInfo ''b'') (Path None (Key ''b'') ''Query'')
        (VPromise (Promise 2 (Rejected (Exception ''X'')))))"
    by blast
  from appends_onlyD [OF this, of "\<lparr>errors = [Exception ''A'']\<rparr>"]
  have one: "prefix [Exception ''A'']
     (errors (snd (complete_value demo_engine (NamedType ''Int'') [FieldNode ''b'']
        (GraphQLResolveInfo ''b'') (Path None (Key ''b'') ''Query'')
        (VPromise (Promise 2 (Rejected (Exception ''X'')))) \<lparr>errors = [Exception ''A'']\<rparr>)))"
    by simp
  from inst
  have "snd (build_response demo_engine (VPromise (Promise 3 (Rejected (Exception ''X''))))
        \<lparr>errors = [Exception ''A'']\<rparr>) =
      snd (super_build_response demo_engine
        (fst (builder_input (VPromise (Promise 3 (Rejected (Exception ''X''))))
           \<lparr>errors = [Exception ''A'']\<rparr>))
        (snd (builder_input (VPromise (Promise 3 (Rejected (Exception ''X''))))
           \<lparr>errors = [Exception ''A'']\<rparr>)))"
    by blast
  then have two: "errors (snd (build_response demo_engine
        (VPromise (Promise 3 (Rejected (Exception ''X'')))) \<lparr>errors = [Exception ''A'']\<rparr>)) =
      [Exception ''A'', Exception ''X'']"
    by simp
  from one two show ?thesis
    by (simp add: complete_value_thenable promise_then_rejected handle_error_def)
qed

text \<open>
  C9 as stated fails for \<^verbatim>\<open>build_response\<close> when the inherited builder sorts the error
  list, as the builder of the GraphQL library does: the entry recorded first ends up behind
  the rejection appended after it.
\<close>

theorem build_response_reorders_counterexample:
  "build_response library_engine
      (VPromise (Promise 3 (Rejected (GraphQLError (Exception ''X'') [FieldNode ''b''] [Key ''b'']))))
      \<lparr>errors = [GraphQLError (Exception ''Y'') [FieldNode ''a''] [Key ''a'', Index 0]]\<rparr> =
     (Inr (ExecutionResult VNone
        [GraphQLError (Exception ''X'') [FieldNode ''b''] [Key ''b''],
         GraphQLError (Exception ''Y'') [FieldNode ''a''] [Key ''a'', Index 0]]),
      \<lparr>errors =
        [GraphQLError (Exception ''X'') [FieldNode ''b''] [Key ''b''],
         GraphQLError (Exception ''Y'') [FieldNode ''a''] [Key ''a'', Index 0]]\<rparr>)"
  by (simp add: build_response_rejected_eq sorting_build_response_def Let_def)

end
